theory Spec2Isabelle
  imports Complex_Main "HOL-Library.Multiset"
begin

section \<open>JavaScript strings\<close>

text \<open>
  The search service of \<^verbatim>\<open>src/src/services/search.js\<close> works on JavaScript strings.
  A string is modelled as a \<^typ>\<open>string\<close>, each character read as one code unit in the range
  U+0000 to U+00FF. On that range \<^verbatim>\<open>toLowerCase\<close> maps A-Z and the Latin-1 capitals
  (U+00C0 to U+00DE without the multiplication sign U+00D7) 32 places up and leaves every
  other character alone; the regular-expression class \<^verbatim>\<open>\w\<close> is A-Z, a-z, 0-9 and the
  underscore, and \<^verbatim>\<open>\s\<close> is tab, line feed, vertical tab, form feed, carriage return,
  space and the no-break space.
\<close>

definition isWordChar :: "char \<Rightarrow> bool" where
  "isWordChar c =
     (let n = (of_char c :: nat)
      in (48 \<le> n \<and> n \<le> 57) \<or> (65 \<le> n \<and> n \<le> 90) \<or> n = 95 \<or> (97 \<le> n \<and> n \<le> 122))"

definition isSpaceChar :: "char \<Rightarrow> bool" where
  "isSpaceChar c =
     (let n = (of_char c :: nat)
      in (9 \<le> n \<and> n \<le> 13) \<or> n = 32 \<or> n = 160)"

definition lowerChar :: "char \<Rightarrow> char" where
  "lowerChar c =
     (let n = (of_char c :: nat)
      in if (65 \<le> n \<and> n \<le> 90) \<or> (192 \<le> n \<and> n \<le> 222 \<and> n \<noteq> 215)
         then char_of (n + 32) else c)"

definition toLowerCase :: "string \<Rightarrow> string" where
  "toLowerCase s = map lowerChar s"

text \<open>\<^verbatim>\<open>s.startsWith(p)\<close>, \<^verbatim>\<open>s.endsWith(p)\<close> and \<^verbatim>\<open>s.includes(p)\<close>
  (\<open>includesStr\<close>).\<close>

definition startsWith :: "string \<Rightarrow> string \<Rightarrow> bool" where
  "startsWith s p = (take (length p) s = p)"

definition endsWith :: "string \<Rightarrow> string \<Rightarrow> bool" where
  "endsWith s p = (length p \<le> length s \<and> drop (length s - length p) s = p)"

fun includesStr :: "string \<Rightarrow> string \<Rightarrow> bool" where
  "includesStr [] p = (p = [])"
| "includesStr (c # cs) p = (startsWith (c # cs) p \<or> includesStr cs p)"

text \<open>\<^verbatim>\<open>.replace(/[^\w\s]/g, ' ')\<close>: every character that is neither a word character nor
  white space becomes a space.\<close>

definition replacePunctuation :: "string \<Rightarrow> string" where
  "replacePunctuation s = map (\<lambda>c. if isWordChar c \<or> isSpaceChar c then c else CHR '' '') s"

text \<open>\<^verbatim>\<open>.split(/\s+/)\<close>: the pieces between the maximal runs of white space. A run at the
  start or at the end of the string leaves an empty piece there, and the empty string
  splits into one empty piece.\<close>

function splitWhitespace :: "string \<Rightarrow> string list" where
  "splitWhitespace [] = [[]]"
| "splitWhitespace (c # cs) =
     (if isSpaceChar c then [] # splitWhitespace (dropWhile isSpaceChar cs)
      else (case splitWhitespace cs of
              [] \<Rightarrow> [[c]]
            | p # ps \<Rightarrow> (c # p) # ps))"
  by pat_completeness auto
termination
  by (relation "measure length") (auto simp: less_Suc_eq_le length_dropWhile_le)

text \<open>\<^verbatim>\<open>.match(/\b\w{3,}\b/g) || []\<close>: the maximal runs of word characters that are at least
  three characters long, in order.\<close>

fun wordRuns :: "string \<Rightarrow> string \<Rightarrow> string list" where
  "wordRuns cur [] = (if cur = [] then [] else [cur])"
| "wordRuns cur (c # cs) =
     (if isWordChar c then wordRuns (cur @ [c]) cs
      else if cur = [] then wordRuns [] cs
      else cur # wordRuns [] cs)"

definition matchWords3 :: "string \<Rightarrow> string list" where
  "matchWords3 s = filter (\<lambda>w. 3 \<le> length w) (wordRuns [] s)"

text \<open>A JavaScript \<^verbatim>\<open>Set\<close> of strings keeps its members in insertion order;
  \<^verbatim>\<open>add\<close> of a member already there changes nothing.\<close>

definition jsSetAdd :: "'a list \<Rightarrow> 'a \<Rightarrow> 'a list" where
  "jsSetAdd xs x = (if x \<in> set xs then xs else xs @ [x])"

text \<open>\<^verbatim>\<open>xs.slice(start, end)\<close> on integer arguments: a negative argument counts from the
  end, and both are clamped to the array.\<close>

definition jsSlice :: "'a list \<Rightarrow> int \<Rightarrow> int \<Rightarrow> 'a list" where
  "jsSlice xs start stop =
     (let len = int (length xs);
          k = (if start < 0 then max (len + start) 0 else min start len);
          final = (if stop < 0 then max (len + stop) 0 else min stop len)
      in take (nat (final - k)) (drop (nat k) xs))"

section \<open>Documents\<close>

record metadata =
  fileType :: "string option"
  fileSize :: "int option"
  source :: "string option"

record document =
  documentId :: string
  fileName :: string
  ocrText :: string
  uploadDate :: string
  metadata :: "metadata option"
  tags :: "string list option"

text \<open>The text that is indexed and searched: \<^verbatim>\<open>doc.ocrText + ' ' + doc.fileName\<close>.\<close>

definition combinedText :: "'a document_scheme \<Rightarrow> string" where
  "combinedText doc = ocrText doc @ '' '' @ fileName doc"

section \<open>Tokenizer and stemmer\<close>

definition stopWords :: "string list" where
  "stopWords =
     [''the'', ''a'', ''an'', ''and'', ''or'', ''but'', ''in'', ''on'', ''at'', ''to'', ''for'',
      ''of'', ''with'', ''by'', ''is'', ''are'', ''was'', ''were'', ''be'', ''been'', ''being'',
      ''have'', ''has'', ''had'', ''do'', ''does'', ''did'', ''will'', ''would'', ''could'',
      ''should'', ''may'', ''might'', ''can'', ''must'', ''shall'']"

definition suffixes :: "string list" where
  "suffixes = [''ing'', ''ed'', ''er'', ''est'', ''ly'', ''tion'', ''sion'', ''ness'', ''ment'']"

text \<open>The loop of \<^verbatim>\<open>stemWord\<close>: the first suffix of the list that the word ends with, and
  that leaves more than two characters, is cut off.\<close>

fun stemLoop :: "string list \<Rightarrow> string \<Rightarrow> string" where
  "stemLoop [] word = word"
| "stemLoop (suffix # rest) word =
     (if endsWith word suffix \<and> length word > length suffix + 2
      then take (length word - length suffix) word
      else stemLoop rest word)"

definition stemWord :: "string \<Rightarrow> string" where
  "stemWord word = stemLoop suffixes word"

definition keepToken :: "string \<Rightarrow> bool" where
  "keepToken token = (length token > 2 \<and> token \<notin> set stopWords)"

definition tokenize :: "string \<Rightarrow> string list" where
  "tokenize text =
     (if text = [] then []
      else map stemWord
             (filter keepToken
                (splitWhitespace (replacePunctuation (toLowerCase text)))))"

section \<open>Inverted index\<close>

text \<open>\<^verbatim>\<open>this.searchIndex\<close> is a \<^verbatim>\<open>Map\<close> from a term to the \<^verbatim>\<open>Set\<close> of document ids; both
  iterate in insertion order, so the index is an association list in that order.\<close>

type_synonym searchIndex = "(string \<times> string list) list"

definition indexHas :: "searchIndex \<Rightarrow> string \<Rightarrow> bool" where
  "indexHas idx term = (map_of idx term \<noteq> None)"

definition indexGet :: "searchIndex \<Rightarrow> string \<Rightarrow> string list" where
  "indexGet idx term = (case map_of idx term of None \<Rightarrow> [] | Some ids \<Rightarrow> ids)"

definition indexSet :: "searchIndex \<Rightarrow> string \<Rightarrow> string list \<Rightarrow> searchIndex" where
  "indexSet idx term ids =
     (if indexHas idx term
      then map (\<lambda>(k, v). if k = term then (k, ids) else (k, v)) idx
      else idx @ [(term, ids)])"

definition indexClear :: "searchIndex \<Rightarrow> searchIndex" where
  "indexClear idx = []"

text \<open>The body of the inner \<^verbatim>\<open>forEach\<close> of \<^verbatim>\<open>buildIndex\<close>.\<close>

definition addPosting :: "string \<Rightarrow> string \<Rightarrow> searchIndex \<Rightarrow> searchIndex" where
  "addPosting docId token idx =
     (let idx1 = (if \<not> indexHas idx token then indexSet idx token [] else idx)
      in indexSet idx1 token (jsSetAdd (indexGet idx1 token) docId))"

definition indexDocument :: "document \<Rightarrow> searchIndex \<Rightarrow> searchIndex" where
  "indexDocument doc idx = fold (addPosting (documentId doc)) (tokenize (combinedText doc)) idx"

definition buildIndex :: "searchIndex \<Rightarrow> document list \<Rightarrow> searchIndex" where
  "buildIndex idx documents = fold indexDocument documents (indexClear idx)"

section \<open>Search strategies\<close>

definition collectPostings :: "searchIndex \<Rightarrow> string \<Rightarrow> string list \<Rightarrow> string list" where
  "collectPostings idx token matchingDocIds =
     (if indexHas idx token
      then fold (\<lambda>docId ids. jsSetAdd ids docId) (indexGet idx token) matchingDocIds
      else matchingDocIds)"

definition standardSearch :: "searchIndex \<Rightarrow> string \<Rightarrow> document list \<Rightarrow> document list" where
  "standardSearch idx qry documents =
     (let queryTokens = tokenize qry
      in if length queryTokens = 0 then documents
         else let matchingDocIds = fold (collectPostings idx) queryTokens []
              in filter (\<lambda>doc. documentId doc \<in> set matchingDocIds) documents)"

definition phraseSearch :: "string \<Rightarrow> document list \<Rightarrow> document list" where
  "phraseSearch qry documents =
     (let normalizedQuery = toLowerCase qry
      in filter (\<lambda>doc. includesStr (toLowerCase (combinedText doc)) normalizedQuery) documents)"

text \<open>\<^verbatim>\<open>editDistance\<close> fills a matrix with one row for each prefix of \<^verbatim>\<open>str2\<close> and one
  column for each prefix of \<^verbatim>\<open>str1\<close>. Row 0 is \<open>0, 1, \<dots>, |str1|\<close>, row \<open>i\<close> starts with
  \<open>i\<close>, and each further cell is computed from its left, upper and upper-left
  neighbours.\<close>

definition editCell :: "string \<Rightarrow> string \<Rightarrow> nat list \<Rightarrow> nat list \<Rightarrow> nat \<Rightarrow> nat \<Rightarrow> nat" where
  "editCell str1 str2 prevRow curRow i j =
     (if str2 ! (i - 1) = str1 ! (j - 1) then prevRow ! (j - 1)
      else min (prevRow ! (j - 1) + 1) (min (curRow ! (j - 1) + 1) (prevRow ! j + 1)))"

definition editRow :: "string \<Rightarrow> string \<Rightarrow> nat list \<Rightarrow> nat \<Rightarrow> nat list" where
  "editRow str1 str2 prevRow i =
     fold (\<lambda>j curRow. curRow @ [editCell str1 str2 prevRow curRow i j])
       [1 ..< Suc (length str1)] [i]"

definition editMatrix :: "string \<Rightarrow> string \<Rightarrow> nat list list" where
  "editMatrix str1 str2 =
     fold (\<lambda>i matrix. matrix @ [editRow str1 str2 (last matrix) i])
       [1 ..< Suc (length str2)] [[0 ..< Suc (length str1)]]"

definition editDistance :: "string \<Rightarrow> string \<Rightarrow> nat" where
  "editDistance str1 str2 = editMatrix str1 str2 ! length str2 ! length str1"

definition fuzzySearch :: "string \<Rightarrow> document list \<Rightarrow> document list" where
  "fuzzySearch qry documents =
     (let queryTokens = tokenize qry;
          threshold = 2
      in filter (\<lambda>doc.
           let docTokens = tokenize (combinedText doc)
           in list_ex (\<lambda>queryToken.
                list_ex (\<lambda>docToken. editDistance queryToken docToken \<le> threshold) docTokens)
                queryTokens) documents)"

section \<open>JavaScript numbers\<close>

text \<open>A JavaScript number is a finite value, an infinity or \<^verbatim>\<open>NaN\<close>. Finite values are
  taken as real numbers: rounding and overflow of the 64-bit format are left out, the
  special values and their arithmetic are kept.\<close>

datatype jsnum = Num real | PosInf | NegInf | NaN

fun jsNeg :: "jsnum \<Rightarrow> jsnum" where
  "jsNeg (Num x) = Num (- x)"
| "jsNeg PosInf = NegInf"
| "jsNeg NegInf = PosInf"
| "jsNeg NaN = NaN"

fun jsAdd :: "jsnum \<Rightarrow> jsnum \<Rightarrow> jsnum" where
  "jsAdd (Num x) (Num y) = Num (x + y)"
| "jsAdd NaN b = NaN"
| "jsAdd a NaN = NaN"
| "jsAdd PosInf NegInf = NaN"
| "jsAdd NegInf PosInf = NaN"
| "jsAdd PosInf b = PosInf"
| "jsAdd a PosInf = PosInf"
| "jsAdd NegInf b = NegInf"
| "jsAdd a NegInf = NegInf"

definition jsSub :: "jsnum \<Rightarrow> jsnum \<Rightarrow> jsnum" where
  "jsSub a b = jsAdd a (jsNeg b)"

fun jsMul :: "jsnum \<Rightarrow> jsnum \<Rightarrow> jsnum" where
  "jsMul (Num x) (Num y) = Num (x * y)"
| "jsMul NaN b = NaN"
| "jsMul a NaN = NaN"
| "jsMul (Num x) b = (if x = 0 then NaN else if 0 < x then b else jsNeg b)"
| "jsMul a (Num y) = (if y = 0 then NaN else if 0 < y then a else jsNeg a)"
| "jsMul PosInf b = b"
| "jsMul NegInf b = jsNeg b"

text \<open>\<^verbatim>\<open>Math.log\<close>.\<close>

fun jsLog :: "jsnum \<Rightarrow> jsnum" where
  "jsLog (Num x) = (if x = 0 then NegInf else if x < 0 then NaN else Num (ln x))"
| "jsLog PosInf = PosInf"
| "jsLog NegInf = NaN"
| "jsLog NaN = NaN"

text \<open>\<^verbatim>\<open>a < b\<close> and \<^verbatim>\<open>a <= b\<close> on numbers: false as soon as one side is \<^verbatim>\<open>NaN\<close>.\<close>

fun jsLess :: "jsnum \<Rightarrow> jsnum \<Rightarrow> bool" where
  "jsLess (Num x) (Num y) = (x < y)"
| "jsLess NaN b = False"
| "jsLess a NaN = False"
| "jsLess NegInf b = (b \<noteq> NegInf)"
| "jsLess a PosInf = (a \<noteq> PosInf)"
| "jsLess a b = False"

definition jsLessEq :: "jsnum \<Rightarrow> jsnum \<Rightarrow> bool" where
  "jsLessEq a b = (jsLess a b \<or> (a = b \<and> a \<noteq> NaN))"

text \<open>\<^verbatim>\<open>x || 0\<close> on a number: zero and \<^verbatim>\<open>NaN\<close> are falsy.\<close>

definition jsOrZero :: "jsnum \<Rightarrow> jsnum" where
  "jsOrZero x = (if x = Num 0 \<or> x = NaN then Num 0 else x)"

text \<open>\<^verbatim>\<open>xs.sort(compareFn)\<close>: the sort is stable, and \<open>a\<close> goes behind \<open>b\<close> exactly when
  \<^verbatim>\<open>compareFn(a, b)\<close> is greater than zero (\<^verbatim>\<open>NaN\<close> counts as zero). For a consistent
  comparison every stable sort gives the same array; it is written here as insertion
  from the right. Where the comparison is not consistent (a \<^verbatim>\<open>NaN\<close> from an invalid
  date under \<^verbatim>\<open>sortBy: 'date'\<close>) the order is left to the engine and may differ from the
  one computed here, and scores that are equal as reals may differ as rounded numbers:
  \<open>jsSort\<close> fixes the members and the number of the results, and their order for a
  consistent comparison only.\<close>

fun jsSortInsert :: "('a \<Rightarrow> 'a \<Rightarrow> jsnum) \<Rightarrow> 'a \<Rightarrow> 'a list \<Rightarrow> 'a list" where
  "jsSortInsert compareFn a [] = [a]"
| "jsSortInsert compareFn a (b # bs) =
     (if jsLess (Num 0) (compareFn a b) then b # jsSortInsert compareFn a bs
      else a # b # bs)"

definition jsSort :: "('a \<Rightarrow> 'a \<Rightarrow> jsnum) \<Rightarrow> 'a list \<Rightarrow> 'a list" where
  "jsSort compareFn xs = foldr (jsSortInsert compareFn) xs []"

section \<open>Relevance scorer\<close>

text \<open>\<^verbatim>\<open>docTokenCount\<close>, the \<^verbatim>\<open>Map\<close> from a token to the number of its occurrences.\<close>

definition countTokens :: "string list \<Rightarrow> (string \<rightharpoonup> nat)" where
  "countTokens docTokens =
     fold (\<lambda>token m. m(token \<mapsto> (case m token of None \<Rightarrow> 0 | Some n \<Rightarrow> n) + 1))
       docTokens Map.empty"

definition getDocumentFrequency :: "string \<Rightarrow> document list \<Rightarrow> nat" where
  "getDocumentFrequency term documents =
     length (filter (\<lambda>doc. term \<in> set (tokenize (combinedText doc))) documents)"

text \<open>One round of the TF-IDF loop. The token count of the document is not zero where the
  loop runs, and \<open>df + 1\<close> never is.\<close>

definition tfIdfStep ::
  "(string \<rightharpoonup> nat) \<Rightarrow> nat \<Rightarrow> document list \<Rightarrow> string \<Rightarrow> jsnum \<Rightarrow> jsnum" where
  "tfIdfStep docTokenCount docTokensLength allDocuments queryToken score =
     (let tf = real (case docTokenCount queryToken of None \<Rightarrow> 0 | Some n \<Rightarrow> n)
                 / real docTokensLength;
          df = getDocumentFrequency queryToken allDocuments;
          idf = jsLog (Num (real (length allDocuments) / real (df + 1)))
      in jsAdd score (jsMul (Num tf) idf))"

definition calculateRelevance :: "string \<Rightarrow> document \<Rightarrow> document list \<Rightarrow> jsnum" where
  "calculateRelevance qry doc allDocuments =
     (let queryTokens = tokenize qry;
          docTokens = tokenize (combinedText doc)
      in if length queryTokens = 0 \<or> length docTokens = 0 then Num 0
         else
           let docTokenCount = countTokens docTokens;
               score1 = fold (tfIdfStep docTokenCount (length docTokens) allDocuments)
                          queryTokens (Num 0);
               filenameTokens = tokenize (fileName doc);
               filenameMatches = length (filter (\<lambda>token. token \<in> set filenameTokens) queryTokens);
               score2 = jsAdd score1 (Num (real filenameMatches * 0.5));
               content = toLowerCase (combinedText doc)
           in if includesStr content (toLowerCase qry) then jsAdd score2 (Num 1.0) else score2)"

section \<open>Filters\<close>

text \<open>The host's clock and date parser and the locale's string comparison are outside the
  service; they are parameters. \<open>parseDate\<close> gives the time value of \<^verbatim>\<open>new Date(s)\<close>, or
  \<open>None\<close> for an invalid date; \<open>now\<close> is the time value of \<^verbatim>\<open>new Date()\<close>.\<close>

record host =
  parseDate :: "string \<Rightarrow> int option"
  now :: int
  localeCompare :: "string \<Rightarrow> string \<Rightarrow> int"

text \<open>The \<^verbatim>\<open>filters\<close> object. Its \<^verbatim>\<open>tags\<close> field is called \<open>filterTags\<close> here, since
  \<open>tags\<close> is the document's field.\<close>

record searchFilters =
  dateFrom :: "string option"
  dateTo :: "string option"
  fileTypes :: "string list option"
  sources :: "string list option"
  filterTags :: "string list option"
  minSize :: "int option"
  maxSize :: "int option"

definition noFilters :: searchFilters where
  "noFilters = \<lparr>dateFrom = None, dateTo = None, fileTypes = None, sources = None,
                filterTags = None, minSize = None, maxSize = None\<rparr>"

definition truthyString :: "string option \<Rightarrow> bool" where
  "truthyString s = (case s of None \<Rightarrow> False | Some t \<Rightarrow> t \<noteq> [])"

definition truthyInt :: "int option \<Rightarrow> bool" where
  "truthyInt n = (case n of None \<Rightarrow> False | Some k \<Rightarrow> k \<noteq> 0)"

definition nonEmptyList :: "'a list option \<Rightarrow> bool" where
  "nonEmptyList xs = (case xs of None \<Rightarrow> False | Some ys \<Rightarrow> length ys > 0)"

text \<open>Dates compare by their time values; a comparison with an invalid date is false.\<close>

definition dateLessEq :: "int option \<Rightarrow> int option \<Rightarrow> bool" where
  "dateLessEq a b = (case (a, b) of (Some x, Some y) \<Rightarrow> x \<le> y | _ \<Rightarrow> False)"

definition inDateRange :: "host \<Rightarrow> searchFilters \<Rightarrow> document \<Rightarrow> bool" where
  "inDateRange h flt doc =
     (let docDate = parseDate h (uploadDate doc);
          fromDate = (case dateFrom flt of
                        Some s \<Rightarrow> if s \<noteq> [] then parseDate h s else parseDate h ''1900-01-01''
                      | None \<Rightarrow> parseDate h ''1900-01-01'');
          toDate = (case dateTo flt of
                      Some s \<Rightarrow> if s \<noteq> [] then parseDate h s else Some (now h)
                    | None \<Rightarrow> Some (now h))
      in dateLessEq fromDate docDate \<and> dateLessEq docDate toDate)"

text \<open>\<^verbatim>\<open>doc.metadata?.fileType?.includes(type) || doc.fileName.toLowerCase().includes(type)\<close>.\<close>

definition hasFileType :: "document \<Rightarrow> string \<Rightarrow> bool" where
  "hasFileType doc type =
     ((case metadata doc of
         None \<Rightarrow> False
       | Some m \<Rightarrow> (case fileType m of None \<Rightarrow> False | Some ft \<Rightarrow> includesStr ft type))
      \<or> includesStr (toLowerCase (fileName doc)) type)"

text \<open>\<^verbatim>\<open>doc.metadata?.source\<close> and \<^verbatim>\<open>doc.metadata?.fileSize || 0\<close>.\<close>

definition docSource :: "'a document_scheme \<Rightarrow> string option" where
  "docSource doc = (case metadata doc of None \<Rightarrow> None | Some m \<Rightarrow> source m)"

definition docSizeOrZero :: "'a document_scheme \<Rightarrow> int" where
  "docSizeOrZero doc =
     (case metadata doc of
        None \<Rightarrow> 0
      | Some m \<Rightarrow> (case fileSize m of None \<Rightarrow> 0 | Some n \<Rightarrow> n))"

definition inSizeRange :: "searchFilters \<Rightarrow> document \<Rightarrow> bool" where
  "inSizeRange flt doc =
     (let size = docSizeOrZero doc;
          lo = (case minSize flt of None \<Rightarrow> 0 | Some n \<Rightarrow> n)
      in size \<ge> lo \<and>
         (case maxSize flt of
            None \<Rightarrow> True
          | Some n \<Rightarrow> if n = 0 then True else size \<le> n))"

definition applyFilters :: "host \<Rightarrow> document list \<Rightarrow> searchFilters \<Rightarrow> document list" where
  "applyFilters h rs flt =
     (let filtered0 = rs;
          filtered1 = (if truthyString (dateFrom flt) \<or> truthyString (dateTo flt)
                       then filter (inDateRange h flt) filtered0 else filtered0);
          filtered2 = (if nonEmptyList (fileTypes flt)
                       then filter (\<lambda>doc. list_ex (hasFileType doc) (the (fileTypes flt))) filtered1
                       else filtered1);
          filtered3 = (if nonEmptyList (sources flt)
                       then filter (\<lambda>doc. case docSource doc of
                                             None \<Rightarrow> False
                                           | Some s \<Rightarrow> s \<in> set (the (sources flt))) filtered2
                       else filtered2);
          filtered4 = (if nonEmptyList (filterTags flt)
                       then filter (\<lambda>doc. case tags doc of
                                             None \<Rightarrow> False
                                           | Some ts \<Rightarrow>
                                               list_ex (\<lambda>tag. tag \<in> set (the (filterTags flt))) ts)
                              filtered3
                       else filtered3);
          filtered5 = (if truthyInt (minSize flt) \<or> truthyInt (maxSize flt)
                       then filter (inSizeRange flt) filtered4 else filtered4)
      in filtered5)"

section \<open>Scored results, sorting and the search entry point\<close>

text \<open>\<^verbatim>\<open>{...result, relevanceScore: \<dots>}\<close>: a result is the document with one more field.\<close>

record scoredDocument = document +
  relevanceScore :: jsnum

definition withScore :: "document \<Rightarrow> jsnum \<Rightarrow> scoredDocument" where
  "withScore doc score = document.extend doc \<lparr>relevanceScore = score\<rparr>"

definition comparison :: "host \<Rightarrow> string \<Rightarrow> scoredDocument \<Rightarrow> scoredDocument \<Rightarrow> jsnum" where
  "comparison h by a b =
     (if by = ''relevance''
        then jsSub (jsOrZero (relevanceScore a)) (jsOrZero (relevanceScore b))
      else if by = ''date''
        then (case (parseDate h (uploadDate a), parseDate h (uploadDate b)) of
                (Some x, Some y) \<Rightarrow> Num (real_of_int (x - y))
              | _ \<Rightarrow> NaN)
      else if by = ''name''
        then Num (real_of_int (localeCompare h (fileName a) (fileName b)))
      else if by = ''size''
        then Num (real_of_int (docSizeOrZero a - docSizeOrZero b))
      else Num 0)"

definition sortResults ::
  "host \<Rightarrow> scoredDocument list \<Rightarrow> string \<Rightarrow> string \<Rightarrow> scoredDocument list" where
  "sortResults h rs by order =
     (let multiplier = (if order = ''desc'' then - 1 else 1)
      in jsSort (\<lambda>a b. jsMul (comparison h by a b) (Num multiplier)) rs)"

text \<open>The options of \<^verbatim>\<open>search\<close> with their defaults, and the object it returns. The
  \<^verbatim>\<open>pagination\<close> object has its fields under the names \<open>pageLimit\<close> and \<open>pageOffset\<close>,
  the returned \<^verbatim>\<open>filters\<close> under \<open>usedFilters\<close>.\<close>

record searchOptions =
  filters :: searchFilters
  sortBy :: string
  sortOrder :: string
  limit :: int
  offset :: int
  fuzzy :: bool
  exactPhrase :: bool

definition defaultOptions :: searchOptions where
  "defaultOptions =
     \<lparr>filters = noFilters, sortBy = ''relevance'', sortOrder = ''desc'', limit = 50,
      offset = 0, fuzzy = False, exactPhrase = False\<rparr>"

record pagination =
  pageLimit :: int
  pageOffset :: int
  hasMore :: bool

record searchResponse =
  results :: "scoredDocument list"
  total :: nat
  query :: string
  usedFilters :: searchFilters
  pagination :: pagination

text \<open>The three stages of \<^verbatim>\<open>search\<close> before the page is cut: the candidates of the chosen
  strategy, the filters, and the scores with the sort.\<close>

definition candidates ::
  "searchIndex \<Rightarrow> string \<Rightarrow> document list \<Rightarrow> searchOptions \<Rightarrow> document list" where
  "candidates idx qry documents opts =
     (if exactPhrase opts then phraseSearch qry documents
      else if fuzzy opts then fuzzySearch qry documents
      else standardSearch idx qry documents)"

definition filteredResults ::
  "host \<Rightarrow> searchIndex \<Rightarrow> string \<Rightarrow> document list \<Rightarrow> searchOptions \<Rightarrow> document list" where
  "filteredResults h idx qry documents opts =
     applyFilters h (candidates idx qry documents opts) (filters opts)"

definition sortedResults ::
  "host \<Rightarrow> searchIndex \<Rightarrow> string \<Rightarrow> document list \<Rightarrow> searchOptions \<Rightarrow> scoredDocument list"
  where
  "sortedResults h idx qry documents opts =
     sortResults h
       (map (\<lambda>result. withScore result (calculateRelevance qry result documents))
          (filteredResults h idx qry documents opts))
       (sortBy opts) (sortOrder opts)"

definition search ::
  "host \<Rightarrow> searchIndex \<Rightarrow> string \<Rightarrow> document list \<Rightarrow> searchOptions \<Rightarrow> searchResponse" where
  "search h idx qry documents opts =
     (let sorted = sortedResults h idx qry documents opts;
          total = length sorted
      in \<lparr>results = jsSlice sorted (offset opts) (offset opts + limit opts),
          total = total,
          query = qry,
          usedFilters = filters opts,
          pagination = \<lparr>pageLimit = limit opts, pageOffset = offset opts,
                        hasMore = (offset opts + limit opts < int total)\<rparr>\<rparr>)"

section \<open>Suggestions\<close>

definition suggest :: "string \<Rightarrow> int \<Rightarrow> string \<Rightarrow> string list \<Rightarrow> string list" where
  "suggest normalizedQuery lmt word suggestions =
     (if startsWith word normalizedQuery \<and> int (length suggestions) < lmt * 2
      then jsSetAdd suggestions word else suggestions)"

definition getSuggestions ::
  "searchIndex \<Rightarrow> string \<Rightarrow> document list \<Rightarrow> int \<Rightarrow> string list" where
  "getSuggestions idx partialQuery documents lmt =
     (if partialQuery = [] \<or> length partialQuery < 2 then []
      else
        let normalizedQuery = toLowerCase partialQuery;
            fromIndex = fold (\<lambda>(term, docIds). suggest normalizedQuery lmt term) idx [];
            fromDocuments =
              fold (\<lambda>doc. fold (suggest normalizedQuery lmt)
                             (matchWords3 (toLowerCase (combinedText doc))))
                documents fromIndex
        in jsSort (\<lambda>a b. Num (real (length a) - real (length b)))
             (jsSlice fromDocuments 0 lmt))"

section \<open>Example documents\<close>

text \<open>The two documents of the end-to-end example, and a host without a usable date
  parser or locale for the examples that need none.\<close>

definition d1 :: document where
  "d1 = \<lparr>documentId = ''d1'', fileName = ''Census_1920.pdf'',
         ocrText = ''Smith John factory worker'', uploadDate = '''',
         metadata = None, tags = None\<rparr>"

definition d2 :: document where
  "d2 = \<lparr>documentId = ''d2'', fileName = ''Immigration.jpg'',
         ocrText = ''Smith John laborer Ireland'', uploadDate = '''',
         metadata = None, tags = None\<rparr>"

definition exampleHost :: host where
  "exampleHost = \<lparr>parseDate = (\<lambda>s. None), now = 0, localeCompare = (\<lambda>a b. 0)\<rparr>"

text \<open>Two documents with the same tokens in a different order and the same file name.\<close>

definition hillA :: document where
  "hillA = \<lparr>documentId = ''a'', fileName = ''notes.txt'', ocrText = ''king of the hill'',
            uploadDate = '''', metadata = None, tags = None\<rparr>"

definition hillB :: document where
  "hillB = \<lparr>documentId = ''b'', fileName = ''notes.txt'', ocrText = ''the hill of king'',
            uploadDate = '''', metadata = None, tags = None\<rparr>"

section \<open>Arrays: sorting and slicing\<close>

lemma mset_jsSortInsert: "mset (jsSortInsert f a bs) = add_mset a (mset bs)"
  by (induction bs) auto

lemma mset_jsSort: "mset (jsSort f xs) = mset xs"
  unfolding jsSort_def by (induction xs) (auto simp: mset_jsSortInsert)

lemma set_jsSort: "set (jsSort f xs) = set xs"
  using mset_jsSort [of f xs] by (metis set_mset_mset)

lemma length_jsSort: "length (jsSort f xs) = length xs"
  using mset_jsSort [of f xs] by (metis size_mset)

lemma set_jsSlice: "set (jsSlice xs a b) \<subseteq> set xs"
  unfolding jsSlice_def Let_def by (meson set_take_subset set_drop_subset subset_trans)

lemma length_jsSlice_nonneg:
  "0 \<le> a \<Longrightarrow> 0 \<le> n \<Longrightarrow>
   int (length (jsSlice xs a (a + n))) = min n (max 0 (int (length xs) - a))"
  unfolding jsSlice_def Let_def by (auto simp: min_def max_def)

section \<open>Strings: prefixes and substrings\<close>

lemma startsWith_iff: "startsWith s p \<longleftrightarrow> (\<exists>ys. s = p @ ys)"
  unfolding startsWith_def
  by (metis append_eq_conv_conj append_take_drop_id)

text \<open>\<open>includesStr\<close> is the substring test: some text before, the pattern, some text after.\<close>

lemma includesStr_iff: "includesStr s p \<longleftrightarrow> (\<exists>xs ys. s = xs @ p @ ys)"
proof (induction s)
  case Nil
  show ?case by auto
next
  case (Cons c cs)
  show ?case
  proof
    assume "includesStr (c # cs) p"
    then consider "startsWith (c # cs) p" | "includesStr cs p" by auto
    then show "\<exists>xs ys. c # cs = xs @ p @ ys"
    proof cases
      case 1
      then obtain ys where "c # cs = p @ ys" by (auto simp: startsWith_iff)
      then have "c # cs = [] @ p @ ys" by simp
      then show ?thesis by blast
    next
      case 2
      then obtain xs ys where "cs = xs @ p @ ys" using Cons.IH by blast
      then have "c # cs = (c # xs) @ p @ ys" by simp
      then show ?thesis by blast
    qed
  next
    assume "\<exists>xs ys. c # cs = xs @ p @ ys"
    then obtain xs ys where e: "c # cs = xs @ p @ ys" by blast
    show "includesStr (c # cs) p"
    proof (cases xs)
      case Nil
      with e have "startsWith (c # cs) p" by (auto simp: startsWith_iff)
      then show ?thesis by simp
    next
      case (Cons x xs')
      with e have "cs = xs' @ p @ ys" by simp
      then have "includesStr cs p" using Cons.IH by blast
      then show ?thesis by simp
    qed
  qed
qed

section \<open>The tokenizer\<close>

lemma length_stemLoop: "2 < length w \<Longrightarrow> 2 < length (stemLoop sfx w)"
  by (induction sfx) auto

lemma length_stemWord: "2 < length w \<Longrightarrow> 2 < length (stemWord w)"
  unfolding stemWord_def by (rule length_stemLoop)

lemma tokenize_stems:
  "t \<in> set (tokenize s) \<Longrightarrow>
   \<exists>w. w \<in> set (splitWhitespace (replacePunctuation (toLowerCase s))) \<and>
       t = stemWord w \<and> keepToken w"
  unfolding tokenize_def by (auto split: if_splits)

text \<open>
  Claim C3. For every input string, no token in the output of \<open>tokenize\<close> is a stop word
  and none has length 2 or less. The stop-word half fails: the filter runs before the
  stemmer, and the stem of a word that passed the filter can be a stop word. The input
  \<^verbatim>\<open>willing\<close> is not a stop word, loses its suffix \<^verbatim>\<open>ing\<close>, and comes out as the stop
  word \<^verbatim>\<open>will\<close>.
\<close>

theorem tokenize_stop_word_counterexample:
  "tokenize ''willing'' = [''will''] \<and> ''will'' \<in> set stopWords"
  by code_simp

text \<open>
  Claim C3, amended. For every input string, every token in the output of \<open>tokenize\<close> is
  longer than two characters, and it is the stem of a piece of the input (the input in
  lower case, punctuation replaced by spaces, split at white space) that is longer than
  two characters and is not a stop word.
\<close>

theorem tokenize_output:
  "\<forall>t \<in> set (tokenize s).
     2 < length t \<and>
     (\<exists>w. w \<in> set (splitWhitespace (replacePunctuation (toLowerCase s))) \<and>
          t = stemWord w \<and> 2 < length w \<and> w \<notin> set stopWords)"
proof
  fix t assume "t \<in> set (tokenize s)"
  then obtain w where w: "w \<in> set (splitWhitespace (replacePunctuation (toLowerCase s)))"
      "t = stemWord w" "keepToken w"
    using tokenize_stems by blast
  then have k: "2 < length w" "w \<notin> set stopWords" by (simp_all add: keepToken_def)
  from k(1) w(2) have "2 < length t" by (simp add: length_stemWord)
  with w(1,2) k
  show "2 < length t \<and>
     (\<exists>w. w \<in> set (splitWhitespace (replacePunctuation (toLowerCase s))) \<and>
          t = stemWord w \<and> 2 < length w \<and> w \<notin> set stopWords)"
    by blast
qed

theorem tokenize_output_witness:
  "''work'' \<in> set (tokenize ''factory worker'') \<and> 2 < length ''work'' \<and>
   splitWhitespace (replacePunctuation (toLowerCase ''factory worker'')) =
     [''factory'', ''worker''] \<and>
   (\<exists>w. w \<in> set [''factory'', ''worker''] \<and>
        ''work'' = stemWord w \<and> 2 < length w \<and> w \<notin> set stopWords)"
proof -
  have m: "''work'' \<in> set (tokenize ''factory worker'')" by code_simp
  have p: "splitWhitespace (replacePunctuation (toLowerCase ''factory worker'')) =
             [''factory'', ''worker'']"
    by code_simp
  from m tokenize_output [of "''factory worker''"]
  have "2 < length ''work'' \<and>
     (\<exists>w. w \<in> set (splitWhitespace (replacePunctuation (toLowerCase ''factory worker''))) \<and>
          ''work'' = stemWord w \<and> 2 < length w \<and> w \<notin> set stopWords)"
    by blast
  with m p show ?thesis by simp
qed

section \<open>Standard search and the index\<close>

text \<open>
  Claim C2. For every query whose tokenization yields no term (the empty string, or a
  query made of stop words and of tokens of length 2 or less), standard search returns
  the whole input collection.
\<close>

theorem standardSearch_no_terms:
  "tokenize q = [] \<Longrightarrow> standardSearch idx q docs = docs"
  by (simp add: standardSearch_def)

theorem standardSearch_no_terms_witness:
  "tokenize ''the of'' = [] \<and>
   standardSearch (buildIndex [] [d1, d2]) ''the of'' [d1, d2] = [d1, d2]"
proof -
  have h: "tokenize ''the of'' = []" by code_simp
  show ?thesis using h standardSearch_no_terms [OF h] by simp
qed

text \<open>
  Claim C8. \<open>buildIndex\<close> clears the index before it fills it, so the index it leaves
  does not depend on the one it found, and building twice from the same collection
  answers every standard search as building once does.
\<close>

theorem buildIndex_idempotent:
  "buildIndex idx docs = buildIndex [] docs \<and>
   standardSearch (buildIndex (buildIndex idx docs) docs) q ds =
   standardSearch (buildIndex idx docs) q ds"
  by (simp add: buildIndex_def indexClear_def)

section \<open>Suggestions\<close>

lemma suggest_prefix:
  "\<forall>s \<in> set acc. startsWith s nq \<Longrightarrow> \<forall>s \<in> set (suggest nq lmt w acc). startsWith s nq"
  by (auto simp: suggest_def jsSetAdd_def)

lemma fold_suggest_prefix:
  "\<forall>s \<in> set acc. startsWith s nq \<Longrightarrow> \<forall>s \<in> set (fold (suggest nq lmt) ws acc). startsWith s nq"
proof (induction ws arbitrary: acc)
  case Nil
  then show ?case by simp
next
  case (Cons w ws)
  from Cons.prems have "\<forall>s \<in> set (suggest nq lmt w acc). startsWith s nq"
    by (rule suggest_prefix)
  then show ?case using Cons.IH by simp
qed

lemma fold_index_prefix:
  "\<forall>s \<in> set acc. startsWith s nq \<Longrightarrow>
   \<forall>s \<in> set (fold (\<lambda>(term, docIds). suggest nq lmt term) idx acc). startsWith s nq"
proof (induction idx arbitrary: acc)
  case Nil
  then show ?case by simp
next
  case (Cons e idx)
  obtain k v where e: "e = (k, v)" by (cases e)
  from Cons.prems have "\<forall>s \<in> set (suggest nq lmt k acc). startsWith s nq"
    by (rule suggest_prefix)
  then show ?case using Cons.IH e by simp
qed

lemma fold_documents_prefix:
  "\<forall>s \<in> set acc. startsWith s nq \<Longrightarrow>
   \<forall>s \<in> set (fold (\<lambda>doc. fold (suggest nq lmt) (matchWords3 (toLowerCase (combinedText doc))))
                 docs acc). startsWith s nq"
proof (induction docs arbitrary: acc)
  case Nil
  then show ?case by simp
next
  case (Cons d docs)
  from Cons.prems
  have "\<forall>s \<in> set (fold (suggest nq lmt) (matchWords3 (toLowerCase (combinedText d))) acc).
          startsWith s nq"
    by (rule fold_suggest_prefix)
  then show ?case using Cons.IH by simp
qed

text \<open>
  Claim C9. For a partial query of at least two characters, every string that
  \<open>getSuggestions\<close> returns starts with the lowercased partial query; for a partial query
  that is empty or has one character, \<open>getSuggestions\<close> returns the empty sequence.
\<close>

theorem getSuggestions_prefix:
  "(2 \<le> length pq \<longrightarrow>
      (\<forall>s \<in> set (getSuggestions idx pq docs lmt). startsWith s (toLowerCase pq))) \<and>
   (length pq < 2 \<longrightarrow> getSuggestions idx pq docs lmt = [])"
proof (intro conjI impI ballI)
  fix s
  assume len: "2 \<le> length pq" and s: "s \<in> set (getSuggestions idx pq docs lmt)"
  let ?nq = "toLowerCase pq"
  let ?fromIndex = "fold (\<lambda>(term, docIds). suggest ?nq lmt term) idx []"
  let ?fromDocs = "fold (\<lambda>doc. fold (suggest ?nq lmt) (matchWords3 (toLowerCase (combinedText doc))))
                     docs ?fromIndex"
  from len have ne: "pq \<noteq> []" "\<not> length pq < 2" by auto
  have "\<forall>s \<in> set ?fromIndex. startsWith s ?nq"
    by (rule fold_index_prefix) simp
  then have all: "\<forall>s \<in> set ?fromDocs. startsWith s ?nq"
    by (rule fold_documents_prefix)
  from s ne have "s \<in> set (jsSlice ?fromDocs 0 lmt)"
    by (simp add: getSuggestions_def Let_def set_jsSort)
  then have "s \<in> set ?fromDocs" by (rule subsetD [OF set_jsSlice])
  with all show "startsWith s ?nq" by blast
next
  assume "length pq < 2"
  then show "getSuggestions idx pq docs lmt = []" by (simp add: getSuggestions_def)
qed

theorem getSuggestions_prefix_witness:
  "2 \<le> length ''Im'' \<and>
   getSuggestions (buildIndex [] [d1, d2]) ''Im'' [d1, d2] 5 = [''immigra'', ''immigration''] \<and>
   startsWith ''immigra'' (toLowerCase ''Im'') \<and>
   startsWith ''immigration'' (toLowerCase ''Im'') \<and>
   length ''j'' < 2 \<and>
   getSuggestions (buildIndex [] [d1, d2]) ''j'' [d1, d2] 5 = []"
proof -
  have e: "getSuggestions (buildIndex [] [d1, d2]) ''Im'' [d1, d2] 5 = [''immigra'', ''immigration'']"
    by code_simp
  show ?thesis
    using e getSuggestions_prefix [of "''Im''" "buildIndex [] [d1, d2]" "[d1, d2]" 5]
      getSuggestions_prefix [of "''j''" "buildIndex [] [d1, d2]" "[d1, d2]" 5]
    by simp
qed

section \<open>The search entry point\<close>

lemma set_standardSearch: "set (standardSearch idx q docs) \<subseteq> set docs"
  by (auto simp: standardSearch_def Let_def)

lemma set_candidates: "set (candidates idx q docs opts) \<subseteq> set docs"
  using set_standardSearch [of idx q docs]
  by (auto simp: candidates_def phraseSearch_def fuzzySearch_def Let_def)

lemma set_applyFilters: "set (applyFilters h rs flt) \<subseteq> set rs"
  by (auto simp: applyFilters_def Let_def)

lemma set_filteredResults: "set (filteredResults h idx q docs opts) \<subseteq> set docs"
  unfolding filteredResults_def
  using set_applyFilters set_candidates by (rule subset_trans)

lemma truncate_withScore: "document.truncate (withScore d s) = d"
  by (simp add: withScore_def document.truncate_def document.extend_def)

lemma set_sortedResults:
  "set (sortedResults h idx q docs opts) =
   (\<lambda>d. withScore d (calculateRelevance q d docs)) ` set (filteredResults h idx q docs opts)"
  by (simp add: sortedResults_def sortResults_def Let_def set_jsSort)

lemma length_sortedResults:
  "length (sortedResults h idx q docs opts) = length (filteredResults h idx q docs opts)"
  by (simp add: sortedResults_def sortResults_def Let_def length_jsSort)

lemma results_search:
  "results (search h idx q docs opts) =
   jsSlice (sortedResults h idx q docs opts) (offset opts) (offset opts + limit opts)"
  by (simp add: search_def Let_def)

lemma total_search:
  "total (search h idx q docs opts) = length (filteredResults h idx q docs opts)"
  by (simp add: search_def Let_def length_sortedResults)

lemma hasMore_search:
  "hasMore (pagination (search h idx q docs opts)) =
   (offset opts + limit opts < int (total (search h idx q docs opts)))"
  by (simp add: search_def Let_def)

text \<open>
  Claim C10. Whatever the strategy and the options, every element of the results of
  \<open>search\<close> is a document of the input collection with one more field, the relevance
  score computed for it: cut back to the fields of a document it is a member of the
  input, and it is that member extended with its score.
\<close>

theorem search_results_from_input:
  "\<forall>r \<in> set (results (search h idx q docs opts)).
     document.truncate r \<in> set docs \<and>
     r = withScore (document.truncate r) (calculateRelevance q (document.truncate r) docs)"
proof
  fix r assume "r \<in> set (results (search h idx q docs opts))"
  then have "r \<in> set (sortedResults h idx q docs opts)"
    unfolding results_search by (rule subsetD [OF set_jsSlice])
  then obtain d where d: "d \<in> set (filteredResults h idx q docs opts)"
      and r: "r = withScore d (calculateRelevance q d docs)"
    unfolding set_sortedResults by blast
  from d have "d \<in> set docs" by (rule subsetD [OF set_filteredResults])
  with r show "document.truncate r \<in> set docs \<and>
     r = withScore (document.truncate r) (calculateRelevance q (document.truncate r) docs)"
    by (simp add: truncate_withScore)
qed

text \<open>
  Claim C5, amended. For limit and offset not negative, \<open>total\<close> is the number of filtered
  results before the page is cut, the page has exactly
  \<open>min limit (max 0 (total - offset))\<close> results (so at most \<open>min limit (total - offset)\<close>
  as long as the offset is not beyond the total), and \<open>hasMore\<close> is
  \<open>offset + limit < total\<close>.
\<close>

theorem search_pagination:
  "0 \<le> limit opts \<Longrightarrow> 0 \<le> offset opts \<Longrightarrow>
   total (search h idx q docs opts) = length (filteredResults h idx q docs opts) \<and>
   int (length (results (search h idx q docs opts))) =
     min (limit opts) (max 0 (int (total (search h idx q docs opts)) - offset opts)) \<and>
   hasMore (pagination (search h idx q docs opts)) =
     (offset opts + limit opts < int (total (search h idx q docs opts)))"
  by (simp add: total_search hasMore_search results_search length_jsSlice_nonneg
      length_sortedResults)

lemma phrase12: "phraseSearch ''Smith John'' [d1, d2] = [d1, d2]"
  by code_simp

lemma std12:
  "standardSearch (buildIndex [] [d1, d2]) ''Smith'' [d1, d2] = [d1, d2]"
  by code_simp

lemma nofilt: "applyFilters h rs noFilters = rs"
  by (simp add: applyFilters_def noFilters_def truthyString_def truthyInt_def nonEmptyList_def)

lemma jsSlice_all: "int (length xs) \<le> n \<Longrightarrow> jsSlice xs 0 n = xs"
  by (simp add: jsSlice_def Let_def)

lemma same_score_keeps_order:
  "jsLess (Num 0) (jsMul (jsSub (jsOrZero s) (jsOrZero s)) (Num m)) = False"
  by (cases s) (auto simp: jsSub_def jsOrZero_def)

lemma countTokens_lookup:
  "(case fold (\<lambda>token m. m(token \<mapsto> (case m token of None \<Rightarrow> 0 | Some n \<Rightarrow> n) + 1)) ts m t
      of None \<Rightarrow> 0 | Some n \<Rightarrow> n) =
   (case m t of None \<Rightarrow> 0 | Some n \<Rightarrow> n) + count_list ts t"
  by (induction ts arbitrary: m) auto

lemma countTokens_count:
  "(case countTokens ts t of None \<Rightarrow> 0 | Some n \<Rightarrow> n) = count_list ts t"
  unfolding countTokens_def using countTokens_lookup [of ts Map.empty t] by simp

lemma q_tokens: "tokenize ''Smith John'' = [''smith'', ''john'']"
  by code_simp

lemma d1_tokens:
  "tokenize (combinedText d1) = [''smith'', ''john'', ''factory'', ''work'', ''census_1920'', ''pdf'']"
  by code_simp

lemma d2_tokens:
  "tokenize (combinedText d2) = [''smith'', ''john'', ''labor'', ''ireland'', ''immigra'', ''jpg'']"
  by code_simp

lemma d1_name_tokens: "tokenize (fileName d1) = [''census_1920'', ''pdf'']"
  by code_simp

lemma d2_name_tokens: "tokenize (fileName d2) = [''immigra'', ''jpg'']"
  by code_simp

lemma d1_phrase:
  "includesStr (toLowerCase (combinedText d1)) (toLowerCase ''Smith John'')"
  by code_simp

lemma d2_phrase:
  "includesStr (toLowerCase (combinedText d2)) (toLowerCase ''Smith John'')"
  by code_simp

lemma df_smith: "getDocumentFrequency ''smith'' [d1, d2] = 2"
  by code_simp

lemma df_john: "getDocumentFrequency ''john'' [d1, d2] = 2"
  by code_simp

lemma score_d1: "calculateRelevance ''Smith John'' d1 [d1, d2] = Num (1 + ln (2 / 3) / 3)"
  by (simp add: calculateRelevance_def Let_def tfIdfStep_def q_tokens d1_tokens d1_name_tokens
      d1_phrase df_smith df_john countTokens_count)

lemma score_d2: "calculateRelevance ''Smith John'' d2 [d1, d2] = Num (1 + ln (2 / 3) / 3)"
  by (simp add: calculateRelevance_def Let_def tfIdfStep_def q_tokens d2_tokens d2_name_tokens
      d2_phrase df_smith df_john countTokens_count)

lemma defaultOptions_fields:
  "filters defaultOptions = noFilters" "sortBy defaultOptions = ''relevance''"
  "sortOrder defaultOptions = ''desc''" "limit defaultOptions = 50"
  "offset defaultOptions = 0" "fuzzy defaultOptions = False"
  "exactPhrase defaultOptions = False"
  by (simp_all add: defaultOptions_def)

lemma phrase_candidates:
  "filteredResults h idx ''Smith John'' [d1, d2] (defaultOptions\<lparr>exactPhrase := True\<rparr>) = [d1, d2]"
  by (simp add: filteredResults_def candidates_def defaultOptions_def nofilt phrase12)

lemma phrase_sorted:
  "sortedResults h idx ''Smith John'' [d1, d2] (defaultOptions\<lparr>exactPhrase := True\<rparr>) =
   [withScore d1 (Num (1 + ln (2 / 3) / 3)), withScore d2 (Num (1 + ln (2 / 3) / 3))]"
proof -
  have "sortedResults h idx ''Smith John'' [d1, d2] (defaultOptions\<lparr>exactPhrase := True\<rparr>) =
        sortResults h [withScore d1 (Num (1 + ln (2 / 3) / 3)), withScore d2 (Num (1 + ln (2 / 3) / 3))]
          ''relevance'' ''desc''"
    by (simp add: sortedResults_def phrase_candidates score_d1 score_d2 defaultOptions_fields)
  also have "\<dots> = [withScore d1 (Num (1 + ln (2 / 3) / 3)), withScore d2 (Num (1 + ln (2 / 3) / 3))]"
    by (simp add: sortResults_def jsSort_def comparison_def withScore_def document.extend_def
        same_score_keeps_order)
  finally show ?thesis .
qed

text \<open>
  Claim C6. Phrase search selects a document exactly when the lowercased text
  \<^verbatim>\<open>ocrText + ' ' + fileName\<close> contains the lowercased query as a substring, the query
  taken whole; and on the two example documents the search for \<^verbatim>\<open>Smith John\<close> with
  \<^verbatim>\<open>exactPhrase\<close> returns both.
\<close>

theorem phraseSearch_substring:
  "(d \<in> set (phraseSearch q docs) \<longleftrightarrow>
      d \<in> set docs \<and>
      (\<exists>pre post. toLowerCase (ocrText d @ '' '' @ fileName d) = pre @ toLowerCase q @ post)) \<and>
   phraseSearch ''Smith John'' [d1, d2] = [d1, d2] \<and>
   map document.truncate
     (results (search h idx ''Smith John'' [d1, d2] (defaultOptions\<lparr>exactPhrase := True\<rparr>))) =
   [d1, d2]"
proof (intro conjI)
  show "d \<in> set (phraseSearch q docs) \<longleftrightarrow>
      d \<in> set docs \<and>
      (\<exists>pre post. toLowerCase (ocrText d @ '' '' @ fileName d) = pre @ toLowerCase q @ post)"
    by (simp add: phraseSearch_def Let_def includesStr_iff combinedText_def)
  show "phraseSearch ''Smith John'' [d1, d2] = [d1, d2]" by (rule phrase12)
  show "map document.truncate
     (results (search h idx ''Smith John'' [d1, d2] (defaultOptions\<lparr>exactPhrase := True\<rparr>))) =
   [d1, d2]"
    by (simp add: results_search phrase_sorted jsSlice_all truncate_withScore defaultOptions_fields)
qed

theorem search_results_from_input_witness:
  "withScore d1 (Num (1 + ln (2 / 3) / 3))
     \<in> set (results (search exampleHost [] ''Smith John'' [d1, d2]
                (defaultOptions\<lparr>exactPhrase := True\<rparr>))) \<and>
   document.truncate (withScore d1 (Num (1 + ln (2 / 3) / 3))) \<in> set [d1, d2] \<and>
   calculateRelevance ''Smith John'' d1 [d1, d2] = Num (1 + ln (2 / 3) / 3)"
proof -
  have m: "withScore d1 (Num (1 + ln (2 / 3) / 3))
     \<in> set (results (search exampleHost [] ''Smith John'' [d1, d2]
                (defaultOptions\<lparr>exactPhrase := True\<rparr>)))"
    by (simp add: results_search phrase_sorted jsSlice_all defaultOptions_fields)
  show ?thesis
    using m search_results_from_input [of exampleHost "[]" "''Smith John''" "[d1, d2]"
        "defaultOptions\<lparr>exactPhrase := True\<rparr>"]
    by (auto simp: truncate_withScore score_d1)
qed

lemma standard_candidates:
  "filters opts = noFilters \<Longrightarrow> \<not> fuzzy opts \<Longrightarrow> \<not> exactPhrase opts \<Longrightarrow>
   filteredResults h (buildIndex [] [d1, d2]) ''Smith'' [d1, d2] opts = [d1, d2]"
  by (simp add: filteredResults_def candidates_def nofilt std12)

text \<open>
  Claim C5. For limit and offset not negative, the page has at most
  \<open>min limit (total - offset)\<close> results. With an offset beyond the total the bound is
  negative and fails: the search for \<^verbatim>\<open>Smith\<close> in the two example documents with limit
  10 and offset 5 has total 2 and an empty page, and 0 is not at most \<open>2 - 5\<close>.
\<close>

theorem search_pagination_counterexample:
  "total (search exampleHost (buildIndex [] [d1, d2]) ''Smith'' [d1, d2]
            (defaultOptions\<lparr>limit := 10, offset := 5\<rparr>)) = 2 \<and>
   results (search exampleHost (buildIndex [] [d1, d2]) ''Smith'' [d1, d2]
              (defaultOptions\<lparr>limit := 10, offset := 5\<rparr>)) = [] \<and>
   \<not> (int (length (results (search exampleHost (buildIndex [] [d1, d2]) ''Smith'' [d1, d2]
                               (defaultOptions\<lparr>limit := 10, offset := 5\<rparr>))))
        \<le> min 10 (int (total (search exampleHost (buildIndex [] [d1, d2]) ''Smith'' [d1, d2]
                                  (defaultOptions\<lparr>limit := 10, offset := 5\<rparr>))) - 5))"
proof -
  let ?opts = "defaultOptions\<lparr>limit := 10, offset := 5\<rparr>"
  have f: "filteredResults exampleHost (buildIndex [] [d1, d2]) ''Smith'' [d1, d2] ?opts = [d1, d2]"
    by (rule standard_candidates) (simp_all add: defaultOptions_fields)
  have t: "total (search exampleHost (buildIndex [] [d1, d2]) ''Smith'' [d1, d2] ?opts) = 2"
    by (simp add: total_search f)
  have "int (length (results (search exampleHost (buildIndex [] [d1, d2]) ''Smith'' [d1, d2] ?opts))) = 0"
    using length_jsSlice_nonneg [of 5 10 "sortedResults exampleHost (buildIndex [] [d1, d2]) ''Smith'' [d1, d2] ?opts"]
    by (simp add: results_search length_sortedResults f defaultOptions_fields)
  then have r: "results (search exampleHost (buildIndex [] [d1, d2]) ''Smith'' [d1, d2] ?opts) = []"
    by simp
  show ?thesis by (simp add: t r)
qed

theorem search_pagination_witness:
  "0 \<le> limit defaultOptions \<and> 0 \<le> offset defaultOptions \<and>
   total (search exampleHost (buildIndex [] [d1, d2]) ''Smith'' [d1, d2] defaultOptions) = 2 \<and>
   length (results (search exampleHost (buildIndex [] [d1, d2]) ''Smith'' [d1, d2] defaultOptions)) = 2 \<and>
   \<not> hasMore (pagination (search exampleHost (buildIndex [] [d1, d2]) ''Smith'' [d1, d2] defaultOptions))"
proof -
  let ?r = "search exampleHost (buildIndex [] [d1, d2]) ''Smith'' [d1, d2] defaultOptions"
  have f: "filteredResults exampleHost (buildIndex [] [d1, d2]) ''Smith'' [d1, d2] defaultOptions = [d1, d2]"
    by (rule standard_candidates) (simp_all add: defaultOptions_fields)
  have l: "0 \<le> limit defaultOptions" and o: "0 \<le> offset defaultOptions"
    by (simp_all add: defaultOptions_fields)
  from search_pagination [OF l o, of exampleHost "buildIndex [] [d1, d2]" "''Smith''" "[d1, d2]"]
  have t: "total ?r = length (filteredResults exampleHost (buildIndex [] [d1, d2]) ''Smith'' [d1, d2] defaultOptions)"
    and n: "int (length (results ?r)) = min (limit defaultOptions) (max 0 (int (total ?r) - offset defaultOptions))"
    and m: "hasMore (pagination ?r) = (offset defaultOptions + limit defaultOptions < int (total ?r))"
    by blast+
  from t f have t2: "total ?r = 2" by simp
  from n t2 have n2: "length (results ?r) = 2" by (simp add: defaultOptions_fields)
  from m t2 have m2: "\<not> hasMore (pagination ?r)" by (simp add: defaultOptions_fields)
  from l o t2 n2 m2 show ?thesis by blast
qed

section \<open>The relevance scorer\<close>

lemma jsLog_pos: "0 < x \<Longrightarrow> jsLog (Num x) = Num (ln x)"
  by simp

lemma idf_ratio_pos:
  "docs \<noteq> [] \<Longrightarrow> 0 < real (length docs) / real (getDocumentFrequency t docs + 1)"
  by simp

lemma tfIdfStep_finite:
  assumes "docs \<noteq> []"
  shows "tfIdfStep cnt n docs t (Num a) =
         Num (a + real (case cnt t of None \<Rightarrow> 0 | Some k \<Rightarrow> k) / real n *
                    ln (real (length docs) / real (getDocumentFrequency t docs + 1)))"
proof -
  let ?r = "real (length docs) / real (getDocumentFrequency t docs + 1)"
  have "jsLog (Num ?r) = Num (ln ?r)"
    using assms by (intro jsLog_pos idf_ratio_pos)
  then show ?thesis unfolding tfIdfStep_def Let_def by (simp only: jsAdd.simps jsMul.simps)
qed

lemma fold_tfIdfStep_finite:
  "docs \<noteq> [] \<Longrightarrow> \<exists>x. fold (tfIdfStep cnt n docs) ts (Num a) = Num x"
proof (induction ts arbitrary: a)
  case Nil
  then show ?case by simp
next
  case (Cons t ts)
  then show ?case by (simp add: tfIdfStep_finite)
qed

lemma getDocumentFrequency_le: "getDocumentFrequency t docs \<le> length docs"
  by (simp add: getDocumentFrequency_def)

lemma tfIdfStep_nonneg:
  assumes "docs \<noteq> []" and "0 \<le> a"
    and "cnt t \<noteq> None \<and> cnt t \<noteq> Some 0 \<longrightarrow> getDocumentFrequency t docs < length docs"
  shows "\<exists>b\<ge>0. tfIdfStep cnt n docs t (Num a) = Num b"
proof -
  let ?c = "case cnt t of None \<Rightarrow> 0 | Some k \<Rightarrow> k"
  let ?r = "real (length docs) / real (getDocumentFrequency t docs + 1)"
  have "0 \<le> real ?c / real n * ln ?r"
  proof (cases "?c = 0")
    case True
    then show ?thesis by simp
  next
    case False
    then have "cnt t \<noteq> None \<and> cnt t \<noteq> Some 0" by (auto split: option.splits)
    with assms(3) have "getDocumentFrequency t docs + 1 \<le> length docs" by simp
    then have "real (getDocumentFrequency t docs + 1) \<le> real (length docs)"
      by (rule of_nat_mono)
    then have "1 \<le> ?r" by (simp add: le_divide_eq)
    then have "0 \<le> ln ?r" by simp
    then show ?thesis by simp
  qed
  with assms(2) have "0 \<le> a + real ?c / real n * ln ?r" by simp
  then show ?thesis using tfIdfStep_finite [OF assms(1)] by blast
qed

lemma fold_tfIdfStep_nonneg:
  assumes "docs \<noteq> []"
  shows "0 \<le> a \<Longrightarrow>
    \<forall>t \<in> set ts. cnt t \<noteq> None \<and> cnt t \<noteq> Some 0 \<longrightarrow> getDocumentFrequency t docs < length docs \<Longrightarrow>
    \<exists>b\<ge>0. fold (tfIdfStep cnt n docs) ts (Num a) = Num b"
proof (induction ts arbitrary: a)
  case Nil
  then show ?case by simp
next
  case (Cons t ts)
  from Cons.prems obtain b where b: "0 \<le> b" "tfIdfStep cnt n docs t (Num a) = Num b"
    using tfIdfStep_nonneg [OF assms, of a cnt t n] by auto
  from Cons.prems have "\<forall>t \<in> set ts. cnt t \<noteq> None \<and> cnt t \<noteq> Some 0 \<longrightarrow> getDocumentFrequency t docs < length docs"
    by simp
  from Cons.IH [OF b(1) this] b(2) show ?case by simp
qed

lemma countTokens_member:
  "countTokens ts t \<noteq> None \<and> countTokens ts t \<noteq> Some 0 \<Longrightarrow> t \<in> set ts"
  using countTokens_count [of ts t] by (cases "t \<in> set ts") (auto split: option.splits)

text \<open>
  Claim C1, amended. \<open>calculateRelevance\<close> returns 0 when the token sequence of the query
  or of the document is empty. When the collection is not empty and every query token
  that occurs in the document occurs in fewer documents of the collection than the
  collection has (\<open>df + 1 \<le> N\<close>), the score is not negative.
\<close>

theorem relevance_nonneg:
  "(tokenize q = [] \<or> tokenize (combinedText d) = [] \<longrightarrow> calculateRelevance q d docs = Num 0) \<and>
   (docs \<noteq> [] \<and>
    (\<forall>t \<in> set (tokenize q). t \<in> set (tokenize (combinedText d)) \<longrightarrow>
        getDocumentFrequency t docs < length docs) \<longrightarrow>
    jsLessEq (Num 0) (calculateRelevance q d docs))"
proof (intro conjI impI)
  assume "tokenize q = [] \<or> tokenize (combinedText d) = []"
  then show "calculateRelevance q d docs = Num 0"
    by (auto simp: calculateRelevance_def Let_def)
next
  assume h: "docs \<noteq> [] \<and>
    (\<forall>t \<in> set (tokenize q). t \<in> set (tokenize (combinedText d)) \<longrightarrow>
        getDocumentFrequency t docs < length docs)"
  let ?dt = "tokenize (combinedText d)"
  show "jsLessEq (Num 0) (calculateRelevance q d docs)"
  proof (cases "tokenize q = [] \<or> ?dt = []")
    case True
    then have "calculateRelevance q d docs = Num 0"
      by (auto simp: calculateRelevance_def Let_def)
    then show ?thesis by (simp add: jsLessEq_def)
  next
    case False
    from h have ne: "docs \<noteq> []" by simp
    from h have "\<forall>t \<in> set (tokenize q).
        countTokens ?dt t \<noteq> None \<and> countTokens ?dt t \<noteq> Some 0 \<longrightarrow>
        getDocumentFrequency t docs < length docs"
      using countTokens_member by blast
    then obtain b where b: "0 \<le> b"
      "fold (tfIdfStep (countTokens ?dt) (length ?dt) docs) (tokenize q) (Num 0) = Num b"
      using fold_tfIdfStep_nonneg [OF ne, of 0 "tokenize q" "countTokens ?dt" "length ?dt"] by auto
    from False b show ?thesis
      by (auto simp: calculateRelevance_def Let_def jsLessEq_def)
  qed
qed

lemma df_factory: "getDocumentFrequency ''factory'' [d1, d2] = 1"
  by code_simp

lemma reversed_tokens: "tokenize ''John Smith'' = [''john'', ''smith'']"
  by code_simp

lemma reversed_phrase:
  "\<not> includesStr (toLowerCase (combinedText d1)) (toLowerCase ''John Smith'')"
  by code_simp

lemma factory_tokens: "tokenize ''factory'' = [''factory'']"
  by code_simp

lemma reversed_score: "calculateRelevance ''John Smith'' d1 [d1, d2] = Num (ln (2 / 3) / 3)"
  by (simp add: calculateRelevance_def Let_def tfIdfStep_def reversed_tokens d1_tokens
      d1_name_tokens reversed_phrase df_smith df_john countTokens_count)

text \<open>With an empty collection the logarithm is taken of 0: the score is minus infinity
  then, or \<^verbatim>\<open>NaN\<close> when a query term is not in the document.\<close>

lemma relevance_empty_collection:
  "calculateRelevance ''John Smith'' d1 [] = NegInf"
  by (simp add: calculateRelevance_def Let_def tfIdfStep_def reversed_tokens d1_tokens
      d1_name_tokens reversed_phrase getDocumentFrequency_def countTokens_count)

text \<open>
  Claim C1. For every query, document and collection the score is not negative. It
  fails where a query term is in more than half of the documents: the logarithm of
  \<open>N / (df + 1)\<close> is negative there and nothing clamps it. For the query
  \<^verbatim>\<open>John Smith\<close> the first example document, in the collection of both, has two of
  its six tokens in the query, each in both documents, no file name match and no phrase
  match; its score is \<open>ln (2 / 3) / 3\<close>.
\<close>

theorem relevance_negative_counterexample:
  "calculateRelevance ''John Smith'' d1 [d1, d2] = Num (ln (2 / 3) / 3) \<and>
   jsLess (calculateRelevance ''John Smith'' d1 [d1, d2]) (Num 0) \<and>
   \<not> jsLessEq (Num 0) (calculateRelevance ''John Smith'' d1 [d1, d2])"
proof -
  have "ln (2 / 3 :: real) < 0" by simp
  then have "ln (2 / 3 :: real) / 3 < 0" by simp
  then show ?thesis by (simp add: reversed_score jsLessEq_def)
qed

theorem relevance_nonneg_witness:
  "tokenize ''the of'' = [] \<and> calculateRelevance ''the of'' d1 [d1, d2] = Num 0 \<and>
   [d1, d2] \<noteq> [] \<and> tokenize ''factory'' = [''factory''] \<and>
   getDocumentFrequency ''factory'' [d1, d2] < length [d1, d2] \<and>
   jsLessEq (Num 0) (calculateRelevance ''factory'' d1 [d1, d2])"
proof -
  have e: "tokenize ''the of'' = []" by code_simp
  show ?thesis
    using e relevance_nonneg [of "''the of''" d1 "[d1, d2]"]
      relevance_nonneg [of "''factory''" d1 "[d1, d2]"]
    by (simp add: factory_tokens df_factory)
qed

lemma fold_tfIdfStep_cong:
  assumes "\<And>t. (case cntA t of None \<Rightarrow> 0 | Some k \<Rightarrow> k) = (case cntB t of None \<Rightarrow> 0 | Some k \<Rightarrow> (k::nat))"
  shows "fold (tfIdfStep cntA n docs) ts s = fold (tfIdfStep cntB n docs) ts s"
proof -
  have "tfIdfStep cntA n docs = tfIdfStep cntB n docs"
    by (intro ext) (simp add: tfIdfStep_def assms)
  then show ?thesis by simp
qed

text \<open>
  Claim C7, amended. For two documents of one collection with the same multiset of
  tokens and the same file name, and a query whose tokens are not empty, where the
  documents' tokens are not empty either: if the text of the first contains the
  lowercased query and the text of the second does not, the score of the first is the
  score of the second plus 1, so strictly higher.
\<close>

theorem phrase_scores_higher:
  assumes "a \<in> set docs" and "b \<in> set docs"
    and "mset (tokenize (combinedText a)) = mset (tokenize (combinedText b))"
    and "fileName a = fileName b"
    and "includesStr (toLowerCase (combinedText a)) (toLowerCase q)"
    and "\<not> includesStr (toLowerCase (combinedText b)) (toLowerCase q)"
    and "tokenize q \<noteq> []" and "tokenize (combinedText a) \<noteq> []"
  shows "calculateRelevance q a docs = jsAdd (calculateRelevance q b docs) (Num 1) \<and>
         jsLess (calculateRelevance q b docs) (calculateRelevance q a docs)"
proof -
  let ?ta = "tokenize (combinedText a)" and ?tb = "tokenize (combinedText b)"
  from assms(1) have ne: "docs \<noteq> []" by auto
  from assms(3) have len: "length ?ta = length ?tb" by (rule mset_eq_length)
  with assms(8) have tb: "?tb \<noteq> []" by auto
  have cnt: "\<And>t. (case countTokens ?ta t of None \<Rightarrow> 0 | Some k \<Rightarrow> k) =
                  (case countTokens ?tb t of None \<Rightarrow> 0 | Some k \<Rightarrow> k)"
    using assms(3) by (simp add: countTokens_count count_mset [symmetric])
  have f: "fold (tfIdfStep (countTokens ?ta) (length ?ta) docs) (tokenize q) (Num 0) =
           fold (tfIdfStep (countTokens ?tb) (length ?tb) docs) (tokenize q) (Num 0)"
    unfolding len by (rule fold_tfIdfStep_cong) (rule cnt)
  obtain x where x: "fold (tfIdfStep (countTokens ?tb) (length ?tb) docs) (tokenize q) (Num 0) = Num x"
    using fold_tfIdfStep_finite [OF ne] by blast
  let ?m = "real (length (filter (\<lambda>token. token \<in> set (tokenize (fileName b))) (tokenize q))) * 0.5"
  have sa: "calculateRelevance q a docs = Num (x + ?m + 1)"
    using assms(4,5,7,8) f x by (simp add: calculateRelevance_def Let_def)
  have sb: "calculateRelevance q b docs = Num (x + ?m)"
    using assms(6,7) tb x by (simp add: calculateRelevance_def Let_def)
  show ?thesis by (simp add: sa sb)
qed

lemma hillA_tokens:
  "tokenize (combinedText hillA) = [''king'', ''hill'', ''notes'', ''txt'']"
  by code_simp

lemma hillB_tokens:
  "tokenize (combinedText hillB) = [''hill'', ''king'', ''notes'', ''txt'']"
  by code_simp

lemma hill_same_tokens: "mset (tokenize (combinedText hillA)) = mset (tokenize (combinedText hillB))"
  by (simp add: hillA_tokens hillB_tokens)

lemma hill_same_name: "fileName hillA = fileName hillB"
  by (simp add: hillA_def hillB_def)

lemma stop_query_tokens: "tokenize ''of the'' = []"
  by code_simp

lemma stop_phrase_A:
  "includesStr (toLowerCase (combinedText hillA)) (toLowerCase ''of the'')"
  by code_simp

lemma stop_phrase_B:
  "\<not> includesStr (toLowerCase (combinedText hillB)) (toLowerCase ''of the'')"
  by code_simp

lemma hill_query_tokens: "tokenize ''of the hill'' = [''hill'']"
  by code_simp

lemma hill_phrase_A:
  "includesStr (toLowerCase (combinedText hillA)) (toLowerCase ''of the hill'')"
  by code_simp

lemma hill_phrase_B:
  "\<not> includesStr (toLowerCase (combinedText hillB)) (toLowerCase ''of the hill'')"
  by code_simp

text \<open>
  Claim C7. Of two documents with the same tokens and file name, the one that contains
  the query phrase scores strictly higher. It fails for a query without tokens: the
  scorer returns 0 before it looks for the phrase. The texts \<^verbatim>\<open>king of the hill\<close> and
  \<^verbatim>\<open>the hill of king\<close> have the same tokens, only the first contains \<^verbatim>\<open>of the\<close>, and
  both score 0 for that query.
\<close>

theorem phrase_scores_higher_counterexample:
  "mset (tokenize (combinedText hillA)) = mset (tokenize (combinedText hillB)) \<and>
   fileName hillA = fileName hillB \<and>
   includesStr (toLowerCase (combinedText hillA)) (toLowerCase ''of the'') \<and>
   \<not> includesStr (toLowerCase (combinedText hillB)) (toLowerCase ''of the'') \<and>
   calculateRelevance ''of the'' hillA [hillA, hillB] = Num 0 \<and>
   calculateRelevance ''of the'' hillB [hillA, hillB] = Num 0 \<and>
   \<not> jsLess (calculateRelevance ''of the'' hillB [hillA, hillB])
            (calculateRelevance ''of the'' hillA [hillA, hillB])"
proof -
  have a: "calculateRelevance ''of the'' hillA [hillA, hillB] = Num 0"
    by (simp add: calculateRelevance_def stop_query_tokens)
  have b: "calculateRelevance ''of the'' hillB [hillA, hillB] = Num 0"
    by (simp add: calculateRelevance_def stop_query_tokens)
  show ?thesis
    using hill_same_tokens hill_same_name stop_phrase_A stop_phrase_B by (simp add: a b)
qed

theorem phrase_scores_higher_witness:
  "hillA \<in> set [hillA, hillB] \<and> hillB \<in> set [hillA, hillB] \<and>
   mset (tokenize (combinedText hillA)) = mset (tokenize (combinedText hillB)) \<and>
   fileName hillA = fileName hillB \<and>
   includesStr (toLowerCase (combinedText hillA)) (toLowerCase ''of the hill'') \<and>
   \<not> includesStr (toLowerCase (combinedText hillB)) (toLowerCase ''of the hill'') \<and>
   tokenize ''of the hill'' \<noteq> [] \<and> tokenize (combinedText hillA) \<noteq> [] \<and>
   jsLess (calculateRelevance ''of the hill'' hillB [hillA, hillB])
          (calculateRelevance ''of the hill'' hillA [hillA, hillB])"
proof -
  have m: "hillA \<in> set [hillA, hillB]" "hillB \<in> set [hillA, hillB]" by simp_all
  have q: "tokenize ''of the hill'' \<noteq> []" by (simp add: hill_query_tokens)
  have t: "tokenize (combinedText hillA) \<noteq> []" by (simp add: hillA_tokens)
  from phrase_scores_higher [OF m hill_same_tokens hill_same_name hill_phrase_A hill_phrase_B q t]
  have "jsLess (calculateRelevance ''of the hill'' hillB [hillA, hillB])
          (calculateRelevance ''of the hill'' hillA [hillA, hillB])" by blast
  with m hill_same_tokens hill_same_name hill_phrase_A hill_phrase_B q t show ?thesis by blast
qed

section \<open>Adding a term to a query\<close>

text \<open>The tokens of two texts joined by a space are the tokens of the first followed by the
  tokens of the second: the pieces that the filter keeps are not empty, and only empty
  pieces come and go where white space meets.\<close>

lemma splitWhitespace_nonempty: "splitWhitespace s \<noteq> []"
  by (cases s) (auto split: list.splits)

lemma splitWhitespace_word:
  "\<not> isSpaceChar c \<Longrightarrow>
   splitWhitespace (c # cs) = (c # hd (splitWhitespace cs)) # tl (splitWhitespace cs)"
  using splitWhitespace_nonempty [of cs] by (auto split: list.splits)

lemma splitWhitespace_space:
  "isSpaceChar c \<Longrightarrow> splitWhitespace (c # cs) = [] # splitWhitespace (dropWhile isSpaceChar cs)"
  by simp

lemma filter_split_dropWhile:
  assumes "\<not> P []"
  shows "filter P (splitWhitespace (dropWhile isSpaceChar b)) = filter P (splitWhitespace b)"
  using assms by (cases b) auto

lemma split_append_space:
  assumes P: "\<not> P []" and sp: "isSpaceChar sp"
  shows "hd (splitWhitespace (a @ sp # b)) = hd (splitWhitespace a) \<and>
         filter P (tl (splitWhitespace (a @ sp # b))) =
         filter P (tl (splitWhitespace a)) @ filter P (splitWhitespace b)"
proof (induction a rule: splitWhitespace.induct)
  case 1
  show ?case using sp by (simp add: filter_split_dropWhile [where P = P, OF P])
next
  case (2 c cs)
  show ?case
  proof (cases "isSpaceChar c")
    case False
    have l: "splitWhitespace ((c # cs) @ sp # b) =
             (c # hd (splitWhitespace (cs @ sp # b))) # tl (splitWhitespace (cs @ sp # b))"
      using splitWhitespace_word [OF False, of "cs @ sp # b"] by simp
    have r: "splitWhitespace (c # cs) = (c # hd (splitWhitespace cs)) # tl (splitWhitespace cs)"
      by (rule splitWhitespace_word [OF False])
    from 2(2) [OF False] show ?thesis unfolding l r by simp
  next
    case True
    let ?a = "dropWhile isSpaceChar cs"
    show ?thesis
    proof (cases "\<forall>x \<in> set cs. isSpaceChar x")
      case all: True
      then have "dropWhile isSpaceChar (cs @ sp # b) = dropWhile isSpaceChar b"
        using sp by (simp add: dropWhile_append2)
      then have l: "splitWhitespace ((c # cs) @ sp # b) =
                    [] # splitWhitespace (dropWhile isSpaceChar b)"
        using True by simp
      from all have a0: "?a = []" by simp
      have r: "splitWhitespace (c # cs) = [[], []]"
        unfolding splitWhitespace_space [OF True] a0 by simp
      show ?thesis
        unfolding l r using P by (simp add: filter_split_dropWhile [where P = P, OF P])
    next
      case False
      then have d: "dropWhile isSpaceChar (cs @ sp # b) = ?a @ sp # b"
        by (auto simp: dropWhile_append1)
      from 2(1) [OF True]
      have h: "hd (splitWhitespace (?a @ sp # b)) = hd (splitWhitespace ?a)"
        and t: "filter P (tl (splitWhitespace (?a @ sp # b))) =
                filter P (tl (splitWhitespace ?a)) @ filter P (splitWhitespace b)"
        by blast+
      have "filter P (splitWhitespace (?a @ sp # b)) =
            filter P (hd (splitWhitespace (?a @ sp # b)) # tl (splitWhitespace (?a @ sp # b)))"
        using splitWhitespace_nonempty [of "?a @ sp # b"] by simp
      also have "\<dots> = filter P (hd (splitWhitespace ?a) # tl (splitWhitespace ?a)) @
                       filter P (splitWhitespace b)"
        using h t by simp
      also have "\<dots> = filter P (splitWhitespace ?a) @ filter P (splitWhitespace b)"
        using splitWhitespace_nonempty [of ?a] by simp
      finally show ?thesis using True d by simp
    qed
  qed
qed

lemma filter_split_append_space:
  assumes "\<not> P []" and "isSpaceChar sp"
  shows "filter P (splitWhitespace (a @ sp # b)) =
         filter P (splitWhitespace a) @ filter P (splitWhitespace b)"
proof -
  have "filter P (splitWhitespace (a @ sp # b)) =
        filter P (hd (splitWhitespace (a @ sp # b)) # tl (splitWhitespace (a @ sp # b)))"
    using splitWhitespace_nonempty [of "a @ sp # b"] by simp
  also have "\<dots> = filter P (hd (splitWhitespace a) # tl (splitWhitespace a)) @
                   filter P (splitWhitespace b)"
    using split_append_space [where P = P, OF assms, of a b] by simp
  also have "\<dots> = filter P (splitWhitespace a) @ filter P (splitWhitespace b)"
    using splitWhitespace_nonempty [of a] by simp
  finally show ?thesis .
qed

lemma tokenize_pipeline:
  "tokenize s = map stemWord (filter keepToken (splitWhitespace (replacePunctuation (toLowerCase s))))"
  by (simp add: tokenize_def toLowerCase_def replacePunctuation_def keepToken_def)

lemma isSpaceChar_space: "isSpaceChar CHR '' ''"
  by (simp add: isSpaceChar_def)

lemma normalize_append_space:
  "replacePunctuation (toLowerCase (a @ '' '' @ b)) =
   replacePunctuation (toLowerCase a) @ CHR '' '' # replacePunctuation (toLowerCase b)"
  by (simp add: replacePunctuation_def toLowerCase_def lowerChar_def isSpaceChar_def)

lemma tokenize_append_space: "tokenize (a @ '' '' @ b) = tokenize a @ tokenize b"
proof -
  have "\<not> keepToken []" by (simp add: keepToken_def)
  then show ?thesis
    unfolding tokenize_pipeline normalize_append_space
    by (simp add: filter_split_append_space [where P = keepToken] isSpaceChar_space)
qed

section \<open>Postings and the candidates of standard search\<close>

lemma set_fold_jsSetAdd: "set (fold (\<lambda>docId ids. jsSetAdd ids docId) xs acc) = set acc \<union> set xs"
  by (induction xs arbitrary: acc) (auto simp: jsSetAdd_def)

lemma indexGet_absent: "\<not> indexHas idx t \<Longrightarrow> indexGet idx t = []"
  by (simp add: indexHas_def indexGet_def)

lemma set_collectPostings:
  "set (collectPostings idx t acc) = set acc \<union> set (indexGet idx t)"
  by (simp add: collectPostings_def set_fold_jsSetAdd indexGet_absent)

lemma set_fold_collectPostings:
  "set (fold (collectPostings idx) ts acc) = set acc \<union> (\<Union>t \<in> set ts. set (indexGet idx t))"
  by (induction ts arbitrary: acc) (auto simp: set_collectPostings)

lemma set_standardSearch_terms:
  "tokenize q \<noteq> [] \<Longrightarrow>
   set (standardSearch idx q docs) =
   {d \<in> set docs. \<exists>t \<in> set (tokenize q). documentId d \<in> set (indexGet idx t)}"
  by (auto simp: standardSearch_def Let_def set_fold_collectPostings)

lemma map_of_indexSet: "map_of (indexSet idx k v) = (map_of idx)(k \<mapsto> v)"
proof (cases "indexHas idx k")
  case True
  have "map_of (map (\<lambda>(k', v'). if k' = k then (k', v) else (k', v')) idx) k' =
        (if k' = k then (if map_of idx k = None then None else Some v) else map_of idx k')" for k'
    by (induction idx) auto
  with True show ?thesis by (auto simp: indexSet_def indexHas_def)
next
  case False
  then have "map_of idx k = None" by (simp add: indexHas_def)
  then have "map_of (idx @ [(k, v)]) = (map_of idx)(k \<mapsto> v)"
    by (auto simp: map_add_def fun_eq_iff split: option.splits)
  with False show ?thesis by (simp add: indexSet_def)
qed

lemma indexGet_addPosting:
  "set (indexGet (addPosting docId token idx) t) =
   (if t = token then insert docId (set (indexGet idx t)) else set (indexGet idx t))"
  by (auto simp: addPosting_def Let_def indexGet_def indexHas_def map_of_indexSet jsSetAdd_def
      split: option.splits)

lemma indexGet_fold_addPosting:
  "set (indexGet (fold (addPosting docId) ts idx) t) =
   (if t \<in> set ts then insert docId (set (indexGet idx t)) else set (indexGet idx t))"
  by (induction ts arbitrary: idx) (auto simp: indexGet_addPosting)

lemma indexGet_fold_indexDocument:
  "set (indexGet (fold indexDocument docs idx) t) =
   set (indexGet idx t) \<union>
   {documentId d | d. d \<in> set docs \<and> t \<in> set (tokenize (combinedText d))}"
proof (induction docs arbitrary: idx)
  case Nil
  show ?case by simp
next
  case (Cons d docs)
  show ?case
    unfolding fold_Cons comp_apply Cons.IH
    by (auto simp: indexDocument_def indexGet_fold_addPosting)
qed

lemma postings_buildIndex:
  "set (indexGet (buildIndex idx docs) t) =
   {documentId d | d. d \<in> set docs \<and> t \<in> set (tokenize (combinedText d))}"
proof -
  have "set (indexGet [] t) = {}" by (simp add: indexGet_def)
  then show ?thesis
    unfolding buildIndex_def indexClear_def indexGet_fold_indexDocument by simp
qed

text \<open>
  Claim C4, amended. For a query with at least one token, the candidates of standard
  search are the input documents whose id is in the postings of one of the query's
  tokens, whatever the index holds; the postings of a term in a freshly built index are
  the ids of the documents that have the term among their tokens; and the candidates of
  the query with one more term, joined by a space, include the candidates of the query.
\<close>

theorem standardSearch_union:
  assumes "tokenize q \<noteq> []"
  shows "set (standardSearch idx q docs) =
           {d \<in> set docs. \<exists>t \<in> set (tokenize q). documentId d \<in> set (indexGet idx t)} \<and>
         set (indexGet (buildIndex idx0 docs) t) =
           {documentId d | d. d \<in> set docs \<and> t \<in> set (tokenize (combinedText d))} \<and>
         set (standardSearch idx q docs) \<subseteq> set (standardSearch idx (q @ '' '' @ t') docs)"
proof (intro conjI)
  show "set (standardSearch idx q docs) =
           {d \<in> set docs. \<exists>t \<in> set (tokenize q). documentId d \<in> set (indexGet idx t)}"
    using assms by (rule set_standardSearch_terms)
  show "set (indexGet (buildIndex idx0 docs) t) =
           {documentId d | d. d \<in> set docs \<and> t \<in> set (tokenize (combinedText d))}"
    by (rule postings_buildIndex)
  have tk: "tokenize (q @ '' '' @ t') = tokenize q @ tokenize t'"
    by (rule tokenize_append_space)
  have more: "tokenize (q @ '' '' @ t') \<noteq> []"
    unfolding tk using assms by simp
  show "set (standardSearch idx q docs) \<subseteq> set (standardSearch idx (q @ '' '' @ t') docs)"
    unfolding set_standardSearch_terms [OF assms] set_standardSearch_terms [OF more] tk
    by auto
qed

text \<open>
  Claim C4. For every query, adding a term never shrinks the candidates of standard
  search, which are the union of the postings of the query's tokens. It fails for a
  query without tokens, whose candidates are all documents and not the empty union: with
  the index built from the two example documents, \<^verbatim>\<open>the\<close> selects both and
  \<^verbatim>\<open>the factory\<close> selects the first only.
\<close>

theorem standardSearch_union_counterexample:
  "standardSearch (buildIndex [] [d1, d2]) ''the'' [d1, d2] = [d1, d2] \<and>
   standardSearch (buildIndex [] [d1, d2]) (''the'' @ '' '' @ ''factory'') [d1, d2] = [d1] \<and>
   d2 \<notin> set [d1] \<and>
   \<not> set (standardSearch (buildIndex [] [d1, d2]) ''the'' [d1, d2])
       \<subseteq> set (standardSearch (buildIndex [] [d1, d2]) (''the'' @ '' '' @ ''factory'') [d1, d2])"
proof -
  have a: "standardSearch (buildIndex [] [d1, d2]) ''the'' [d1, d2] = [d1, d2]" by code_simp
  have b: "standardSearch (buildIndex [] [d1, d2]) (''the'' @ '' '' @ ''factory'') [d1, d2] = [d1]"
    by code_simp
  have c: "d2 \<noteq> d1" by (simp add: d1_def d2_def)
  show ?thesis unfolding a b using c by simp
qed

theorem standardSearch_union_witness:
  "tokenize ''Ireland'' \<noteq> [] \<and>
   standardSearch (buildIndex [] [d1, d2]) ''Ireland'' [d1, d2] = [d2] \<and>
   standardSearch (buildIndex [] [d1, d2]) (''Ireland'' @ '' '' @ ''factory'') [d1, d2] = [d1, d2] \<and>
   set (standardSearch (buildIndex [] [d1, d2]) ''Ireland'' [d1, d2])
     \<subseteq> set (standardSearch (buildIndex [] [d1, d2]) (''Ireland'' @ '' '' @ ''factory'') [d1, d2])"
proof -
  have t: "tokenize ''Ireland'' \<noteq> []" by code_simp
  have a: "standardSearch (buildIndex [] [d1, d2]) ''Ireland'' [d1, d2] = [d2]" by code_simp
  have b: "standardSearch (buildIndex [] [d1, d2]) (''Ireland'' @ '' '' @ ''factory'') [d1, d2] = [d1, d2]"
    by code_simp
  from standardSearch_union [OF t, of "buildIndex [] [d1, d2]" "[d1, d2]" "[]" "''x''" "''factory''"]
  have "set (standardSearch (buildIndex [] [d1, d2]) ''Ireland'' [d1, d2])
     \<subseteq> set (standardSearch (buildIndex [] [d1, d2]) (''Ireland'' @ '' '' @ ''factory'') [d1, d2])"
    by blast
  with t a b show ?thesis by blast
qed

end
